theory Spec2Isabelle
  imports Main
begin

section \<open>Values, failures and lazily produced sequences\<close>

text \<open>
  The library \<^verbatim>\<open>iq.js\<close> builds pipelines of generator functions over iterables.
  A failure raised while a pipeline runs is a value of type \<open>error\<close>: the host's
  type error for iterating something that is not iterable, the host's type error for
  reading a property of \<^verbatim>\<open>null\<close> or \<^verbatim>\<open>undefined\<close>, and whatever a caller-supplied function
  throws.
\<close>

datatype error = NotIterable | CannotReadProperty | Thrown string

text \<open>
  The values that flow through a pipeline, each taken by its contents. An object is
  the map of its own data fields, an array the list of its elements, a string a list
  of ASCII characters. Numbers, counts and indices are integers. Which object a value
  is, and what it inherits from its prototypes, is not part of these values: the rule
  of \<^verbatim>\<open>select\<close>, the one rule that reads and makes objects, is taken up again on a store
  of objects further below.
\<close>

datatype val = Undefined | Null | Bool bool | Num int | Str string
  | Obj "string \<Rightarrow> val option" | Arr "val list"

text \<open>
  What an iterator produces when it is pulled until it stops: a value and the rest
  (\<open>SYield\<close>), the end of the iteration (\<open>SDone\<close>), or a failure thrown by the pull
  (\<open>SThrow\<close>). The sequences are those of iterations that come to an end. A generator
  function body \<^verbatim>\<open>for (const val of it) { ... }\<close> is a recursion over the sequence of
  its upstream iterator, its local variables the arguments of the recursion: the loop
  head pulls the next element before the body runs, and \<^verbatim>\<open>break\<close> ends the generator
  without a further pull.
\<close>

datatype seq = SDone | SThrow error | SYield val seq

text \<open>
  Whatever is passed where the code expects an iterable: an ordinary value (an array
  iterates over its elements, a string over its characters, the other values of the
  model are not iterable), or a generator object or other iterator, given by the
  sequence that iterating it produces. A run of a pipeline iterates its source once;
  whether the source could be iterated again is not represented.
\<close>

datatype source = Value val | Generator seq

text \<open>
  A rule is a generator function: calling it does not fail and returns a generator,
  whose sequence depends on the iterable it was called with.
\<close>

type_synonym QueryRule = "source \<Rightarrow> seq"

fun array_iterator :: "val list \<Rightarrow> seq" where
  "array_iterator [] = SDone"
| "array_iterator (x # xs) = SYield x (array_iterator xs)"

fun get_iterator :: "source \<Rightarrow> seq" where
  "get_iterator (Generator s) = s"
| "get_iterator (Value (Arr xs)) = array_iterator xs"
| "get_iterator (Value (Str s)) = array_iterator (map (\<lambda>c. Str [c]) s)"
| "get_iterator (Value v) = SThrow NotIterable"

text \<open>\<^verbatim>\<open>yield* it\<close> followed by the rest \<open>k\<close> of the generator body.\<close>

fun delegate :: "seq \<Rightarrow> seq \<Rightarrow> seq" where
  "delegate SDone k = k"
| "delegate (SThrow e) k = SThrow e"
| "delegate (SYield v rest) k = SYield v (delegate rest k)"

definition yield_star :: "source \<Rightarrow> seq \<Rightarrow> seq" where
  "yield_star it k = delegate (get_iterator it) k"

section \<open>Property access\<close>

definition digit :: "char \<Rightarrow> nat option" where
  "digit c = (let n = (of_char c :: nat) in if 48 \<le> n \<and> n \<le> 57 then Some (n - 48) else None)"

fun digits :: "string \<Rightarrow> nat \<Rightarrow> nat option" where
  "digits [] acc = Some acc"
| "digits (c # cs) acc = (case digit c of None \<Rightarrow> None | Some d \<Rightarrow> digits cs (10 * acc + d))"

text \<open>An array index is a decimal numeral without a leading zero.\<close>

definition array_index :: "string \<Rightarrow> nat option" where
  "array_index s =
     (case s of
        [] \<Rightarrow> None
      | c # cs \<Rightarrow> if c = CHR ''0'' \<and> cs \<noteq> [] then None else digits s 0)"

text \<open>
  \<^verbatim>\<open>val[field]\<close> on a value taken by its contents: the own data field of that name. What
  the name of an inherited member gives is part of the store model of \<^verbatim>\<open>select\<close> below.
\<close>

fun getprop :: "val \<Rightarrow> string \<Rightarrow> error + val" where
  "getprop Undefined field = Inl CannotReadProperty"
| "getprop Null field = Inl CannotReadProperty"
| "getprop (Obj m) field = Inr (case m field of None \<Rightarrow> Undefined | Some v \<Rightarrow> v)"
| "getprop (Arr xs) field =
     Inr (if field = ''length'' then Num (int (length xs))
          else case array_index field of
                 None \<Rightarrow> Undefined
               | Some k \<Rightarrow> if k < length xs then xs ! k else Undefined)"
| "getprop (Str s) field =
     Inr (if field = ''length'' then Num (int (length s))
          else case array_index field of
                 None \<Rightarrow> Undefined
               | Some k \<Rightarrow> if k < length s then Str [s ! k] else Undefined)"
| "getprop (Bool b) field = Inr Undefined"
| "getprop (Num n) field = Inr Undefined"

section \<open>The rule factory\<close>

subsection \<open>\<^verbatim>\<open>BuildSelectRule\<close>\<close>

text \<open>\<^verbatim>\<open>fields\<close> is a single field name or an array of field names.\<close>

datatype fields = Name string | Names "string list"

text \<open>
  The inner loop \<^verbatim>\<open>for (const field of fields) obj[field] = val[field]\<close> on the contents
  \<open>obj\<close> of the object under construction, each name an own data field of it.
\<close>

fun copy_fields :: "string list \<Rightarrow> val \<Rightarrow> (string \<Rightarrow> val option) \<Rightarrow> error + (string \<Rightarrow> val option)" where
  "copy_fields [] val obj = Inr obj"
| "copy_fields (field # rest) val obj =
     (case getprop val field of
        Inl e \<Rightarrow> Inl e
      | Inr x \<Rightarrow> copy_fields rest val (obj(field \<mapsto> x)))"

fun select_array :: "string list \<Rightarrow> seq \<Rightarrow> seq" where
  "select_array fs SDone = SDone"
| "select_array fs (SThrow e) = SThrow e"
| "select_array fs (SYield val rest) =
     (case copy_fields fs val Map.empty of
        Inl e \<Rightarrow> SThrow e
      | Inr obj \<Rightarrow> SYield (Obj obj) (select_array fs rest))"

fun select_single :: "string \<Rightarrow> seq \<Rightarrow> seq" where
  "select_single f SDone = SDone"
| "select_single f (SThrow e) = SThrow e"
| "select_single f (SYield val rest) =
     (case getprop val f of
        Inl e \<Rightarrow> SThrow e
      | Inr x \<Rightarrow> SYield x (select_single f rest))"

fun BuildSelectRule :: "fields \<Rightarrow> QueryRule" where
  "BuildSelectRule (Names fs) = (\<lambda>it. select_array fs (get_iterator it))"
| "BuildSelectRule (Name f) = (\<lambda>it. select_single f (get_iterator it))"

subsection \<open>\<^verbatim>\<open>BuildWhereRule\<close>\<close>

text \<open>
  A caller-supplied function of a value and an index returns its result or throws,
  and is a function of its two arguments only. The loop variable \<open>i\<close> is incremented by
  \<^verbatim>\<open>i++\<close> at every call. The condition of \<^verbatim>\<open>if (fn(val, i++))\<close> is the result of \<^verbatim>\<open>fn\<close>
  taken as a truth value.
\<close>

fun to_boolean :: "val \<Rightarrow> bool" where
  "to_boolean Undefined = False"
| "to_boolean Null = False"
| "to_boolean (Bool b) = b"
| "to_boolean (Num n) = (n \<noteq> 0)"
| "to_boolean (Str s) = (s \<noteq> [])"
| "to_boolean (Obj m) = True"
| "to_boolean (Arr xs) = True"

fun where_loop :: "(val \<Rightarrow> nat \<Rightarrow> error + val) \<Rightarrow> nat \<Rightarrow> seq \<Rightarrow> seq" where
  "where_loop fn i SDone = SDone"
| "where_loop fn i (SThrow e) = SThrow e"
| "where_loop fn i (SYield val rest) =
     (case fn val i of
        Inl e \<Rightarrow> SThrow e
      | Inr b \<Rightarrow> if to_boolean b then SYield val (where_loop fn (i + 1) rest)
                else where_loop fn (i + 1) rest)"

definition BuildWhereRule :: "(val \<Rightarrow> nat \<Rightarrow> error + val) \<Rightarrow> QueryRule" where
  "BuildWhereRule fn = (\<lambda>it. where_loop fn 0 (get_iterator it))"

subsection \<open>\<^verbatim>\<open>BuildFlatRule\<close>\<close>

fun flat_loop :: "int \<Rightarrow> nat \<Rightarrow> seq \<Rightarrow> seq" where
  "flat_loop n flattened SDone = SDone"
| "flat_loop n flattened (SThrow e) = SThrow e"
| "flat_loop n flattened (SYield val rest) =
     (if 0 \<le> n \<and> n \<le> int flattened then SDone
      else yield_star (Value val) (flat_loop n (flattened + 1) rest))"

text \<open>The parameter defaults to \<open>-1\<close> when it is not given.\<close>

definition BuildFlatRule :: "int option \<Rightarrow> QueryRule" where
  "BuildFlatRule n_opt =
     (let n = (case n_opt of None \<Rightarrow> - 1 | Some n \<Rightarrow> n)
      in (\<lambda>it. flat_loop n 0 (get_iterator it)))"

subsection \<open>\<^verbatim>\<open>BuildTakeRule\<close>\<close>

fun take_loop :: "int \<Rightarrow> nat \<Rightarrow> seq \<Rightarrow> seq" where
  "take_loop n taken SDone = SDone"
| "take_loop n taken (SThrow e) = SThrow e"
| "take_loop n taken (SYield val rest) =
     (if n \<le> int taken then SDone
      else SYield val (take_loop n (taken + 1) rest))"

definition BuildTakeRule :: "int \<Rightarrow> QueryRule" where
  "BuildTakeRule n = (\<lambda>it. take_loop n 0 (get_iterator it))"

subsection \<open>\<^verbatim>\<open>BuildSkipRule\<close>\<close>

fun skip_loop :: "int \<Rightarrow> nat \<Rightarrow> seq \<Rightarrow> seq" where
  "skip_loop n skipped SDone = SDone"
| "skip_loop n skipped (SThrow e) = SThrow e"
| "skip_loop n skipped (SYield val rest) =
     (if n \<le> int skipped then SYield val (skip_loop n (skipped + 1) rest)
      else skip_loop n (skipped + 1) rest)"

definition BuildSkipRule :: "int \<Rightarrow> QueryRule" where
  "BuildSkipRule n = (\<lambda>it. skip_loop n 0 (get_iterator it))"

subsection \<open>\<^verbatim>\<open>BuildMapRule\<close>\<close>

fun map_loop :: "(val \<Rightarrow> nat \<Rightarrow> error + val) \<Rightarrow> nat \<Rightarrow> seq \<Rightarrow> seq" where
  "map_loop fn i SDone = SDone"
| "map_loop fn i (SThrow e) = SThrow e"
| "map_loop fn i (SYield val rest) =
     (case fn val i of
        Inl e \<Rightarrow> SThrow e
      | Inr y \<Rightarrow> SYield y (map_loop fn (i + 1) rest))"

definition BuildMapRule :: "(val \<Rightarrow> nat \<Rightarrow> error + val) \<Rightarrow> QueryRule" where
  "BuildMapRule fn = (\<lambda>it. map_loop fn 0 (get_iterator it))"

section \<open>\<^verbatim>\<open>QueryExecutor\<close>\<close>

record QueryExecutor =
  query :: QueryRule
  iterable :: source

text \<open>
  The constructor's second parameter defaults to \<^verbatim>\<open>null\<close>: the default applies when the
  argument is missing, that is \<^verbatim>\<open>undefined\<close>.
\<close>

definition new_QueryExecutor :: "QueryRule \<Rightarrow> source \<Rightarrow> QueryExecutor" where
  "new_QueryExecutor q it =
     \<lparr>query = q, iterable = (case it of Value Undefined \<Rightarrow> Value Null | _ \<Rightarrow> it)\<rparr>"

text \<open>\<^verbatim>\<open>*[Symbol.iterator]() { yield* this.query(this.iterable); }\<close>\<close>

definition Symbol_iterator :: "QueryExecutor \<Rightarrow> seq" where
  "Symbol_iterator ex = yield_star (Generator (query ex (iterable ex))) SDone"

text \<open>\<^verbatim>\<open>Array.from\<close> pulls until the iterator is done; a failure of a pull leaves it.\<close>

fun array_from :: "seq \<Rightarrow> val list \<Rightarrow> error + val list" where
  "array_from SDone acc = Inr acc"
| "array_from (SThrow e) acc = Inl e"
| "array_from (SYield v rest) acc = array_from rest (acc @ [v])"

definition collect :: "QueryExecutor \<Rightarrow> error + val list" where
  "collect ex = array_from (Symbol_iterator ex) []"

text \<open>
  What the function given to \<^verbatim>\<open>acollect\<close> returns: a plain value or a pending
  asynchronous result. The function is the caller's and may have effects of its own:
  it takes the caller's state and returns the new one.
\<close>

datatype 'p async = Plain val | Pending 'p

text \<open>The aggregate that \<^verbatim>\<open>Promise.all(promises)\<close> launches over the collected results.\<close>

datatype 'p aggregate = PromiseAll "'p async list"

fun acollect_loop ::
  "(val \<Rightarrow> nat \<Rightarrow> 's \<Rightarrow> (error + 'p async) \<times> 's) \<Rightarrow> nat \<Rightarrow> 'p async list \<Rightarrow> seq \<Rightarrow> 's
    \<Rightarrow> (error + 'p async list) \<times> 's" where
  "acollect_loop fn i promises SDone s = (Inr promises, s)"
| "acollect_loop fn i promises (SThrow e) s = (Inl e, s)"
| "acollect_loop fn i promises (SYield val rest) s =
     (case fn val i s of
        (Inl e, s') \<Rightarrow> (Inl e, s')
      | (Inr p, s') \<Rightarrow> acollect_loop fn (i + 1) (promises @ [p]) rest s')"

text \<open>
  \<open>Inl e\<close> is \<open>e\<close> thrown out of the call of \<^verbatim>\<open>acollect\<close>; \<open>Inr\<close> is the aggregate it
  returns. The first parameter defaults to the identity.
\<close>

definition acollect ::
  "(val \<Rightarrow> nat \<Rightarrow> 's \<Rightarrow> (error + 'p async) \<times> 's) option \<Rightarrow> QueryExecutor \<Rightarrow> 's
    \<Rightarrow> (error + 'p aggregate) \<times> 's" where
  "acollect fn_opt ex s =
     (let fn = (case fn_opt of None \<Rightarrow> (\<lambda>x i s. (Inr (Plain x), s)) | Some f \<Rightarrow> f)
      in case acollect_loop fn 0 [] (Symbol_iterator ex) s of
           (Inl e, s') \<Rightarrow> (Inl e, s')
         | (Inr promises, s') \<Rightarrow> (Inr (PromiseAll promises), s'))"

definition QueryExecutor_on :: "QueryExecutor \<Rightarrow> source \<Rightarrow> QueryExecutor" where
  "QueryExecutor_on ex it = ex\<lparr>iterable := it\<rparr>"

section \<open>\<^verbatim>\<open>Query\<close>\<close>

text \<open>
  A \<^verbatim>\<open>Query\<close> is an object with one mutable field \<^verbatim>\<open>rules\<close>, a reference to an array of
  rules that \<^verbatim>\<open>push\<close> extends in place. The store keeps the arrays and the objects by
  address: \<open>arrays\<close> gives the contents of each array, \<open>queries\<close> the \<^verbatim>\<open>rules\<close> field of
  each \<^verbatim>\<open>Query\<close>; addresses below \<open>n_arrays\<close> and \<open>n_queries\<close> are allocated.
\<close>

record heap =
  arrays :: "nat \<Rightarrow> QueryRule list"
  n_arrays :: nat
  queries :: "nat \<Rightarrow> nat"
  n_queries :: nat

definition empty_heap :: heap where
  "empty_heap = \<lparr>arrays = (\<lambda>a. []), n_arrays = 0, queries = (\<lambda>q. 0), n_queries = 0\<rparr>"

text \<open>An array literal: a new array.\<close>

definition new_array :: "QueryRule list \<Rightarrow> heap \<Rightarrow> nat \<times> heap" where
  "new_array elems h =
     (n_arrays h, h\<lparr>arrays := (arrays h)(n_arrays h := elems), n_arrays := n_arrays h + 1\<rparr>)"

text \<open>\<^verbatim>\<open>constructor(rules=[])\<close>: the given array is stored by reference.\<close>

definition new_Query :: "nat option \<Rightarrow> heap \<Rightarrow> nat \<times> heap" where
  "new_Query rules_opt h =
     (let (a, h1) = (case rules_opt of None \<Rightarrow> new_array [] h | Some a \<Rightarrow> (a, h))
      in (n_queries h1, h1\<lparr>queries := (queries h1)(n_queries h1 := a), n_queries := n_queries h1 + 1\<rparr>))"

text \<open>\<^verbatim>\<open>this.rules\<close>\<close>

definition this_rules :: "nat \<Rightarrow> heap \<Rightarrow> QueryRule list" where
  "this_rules q h = arrays h (queries h q)"

definition pushrule :: "nat \<Rightarrow> QueryRule \<Rightarrow> heap \<Rightarrow> nat \<times> heap" where
  "pushrule q rule h = (q, h\<lparr>arrays := (arrays h)(queries h q := this_rules q h @ [rule])\<rparr>)"

definition Query_select :: "nat \<Rightarrow> fields \<Rightarrow> heap \<Rightarrow> nat \<times> heap" where
  "Query_select q fs h = pushrule q (BuildSelectRule fs) h"

definition Query_where :: "nat \<Rightarrow> (val \<Rightarrow> nat \<Rightarrow> error + val) \<Rightarrow> heap \<Rightarrow> nat \<times> heap" where
  "Query_where q fn h = pushrule q (BuildWhereRule fn) h"

definition Query_flat :: "nat \<Rightarrow> int option \<Rightarrow> heap \<Rightarrow> nat \<times> heap" where
  "Query_flat q n h = pushrule q (BuildFlatRule n) h"

definition Query_take :: "nat \<Rightarrow> int \<Rightarrow> heap \<Rightarrow> nat \<times> heap" where
  "Query_take q n h = pushrule q (BuildTakeRule n) h"

definition Query_skip :: "nat \<Rightarrow> int \<Rightarrow> heap \<Rightarrow> nat \<times> heap" where
  "Query_skip q n h = pushrule q (BuildSkipRule n) h"

definition Query_map :: "nat \<Rightarrow> (val \<Rightarrow> nat \<Rightarrow> error + val) \<Rightarrow> heap \<Rightarrow> nat \<times> heap" where
  "Query_map q fn h = pushrule q (BuildMapRule fn) h"

text \<open>
  The loop of \<^verbatim>\<open>compile\<close> from \<open>i = 1\<close>: \<open>compiled\<close> is the rule composed so far, the list
  holds \<^verbatim>\<open>this.rules[i]\<close> and the rules after it.
\<close>

fun compile_loop :: "QueryRule \<Rightarrow> QueryRule list \<Rightarrow> QueryRule" where
  "compile_loop compiled [] = compiled"
| "compile_loop compiled (rule # rest) =
     compile_loop (\<lambda>it. rule (Generator (compiled it))) rest"

definition compile_rules :: "QueryRule list \<Rightarrow> QueryRule" where
  "compile_rules rules =
     (if length rules > 0 then compile_loop (rules ! 0) (drop 1 rules)
      else (\<lambda>it. yield_star it SDone))"

definition Query_compile :: "nat \<Rightarrow> heap \<Rightarrow> QueryRule" where
  "Query_compile q h = compile_rules (this_rules q h)"

definition Query_on :: "nat \<Rightarrow> source \<Rightarrow> heap \<Rightarrow> QueryExecutor" where
  "Query_on q it h = new_QueryExecutor (Query_compile q h) it"

text \<open>\<^verbatim>\<open>build() { return this.on(); }\<close>: the missing argument is \<^verbatim>\<open>undefined\<close>.\<close>

definition Query_build :: "nat \<Rightarrow> heap \<Rightarrow> QueryExecutor" where
  "Query_build q h = Query_on q (Value Undefined) h"


definition Query_pack :: "nat \<Rightarrow> heap \<Rightarrow> nat \<times> heap" where
  "Query_pack q h =
     (if length (this_rules q h) > 0
      then (let (a, h1) = new_array [Query_compile q h] h
            in (q, h1\<lparr>queries := (queries h1)(q := a)\<rparr>))
      else (q, h))"

definition QueryExecutor_extend :: "QueryExecutor \<Rightarrow> heap \<Rightarrow> nat \<times> heap" where
  "QueryExecutor_extend ex h =
     (let (a, h1) = new_array [query ex] h in new_Query (Some a) h1)"

text \<open>The entry point \<^verbatim>\<open>query()\<close>.\<close>

definition iq_query :: "heap \<Rightarrow> nat \<times> heap" where
  "iq_query h = new_Query None h"

text \<open>A call of one of the six stage-appending methods of a \<^verbatim>\<open>Query\<close>.\<close>

datatype stage =
    Select fields
  | Where "val \<Rightarrow> nat \<Rightarrow> error + val"
  | Flat "int option"
  | Take int
  | Skip int
  | Map "val \<Rightarrow> nat \<Rightarrow> error + val"

fun BuildRule :: "stage \<Rightarrow> QueryRule" where
  "BuildRule (Select fs) = BuildSelectRule fs"
| "BuildRule (Where fn) = BuildWhereRule fn"
| "BuildRule (Flat n) = BuildFlatRule n"
| "BuildRule (Take n) = BuildTakeRule n"
| "BuildRule (Skip n) = BuildSkipRule n"
| "BuildRule (Map fn) = BuildMapRule fn"

fun Query_call :: "stage \<Rightarrow> nat \<Rightarrow> heap \<Rightarrow> nat \<times> heap" where
  "Query_call (Select fs) q h = Query_select q fs h"
| "Query_call (Where fn) q h = Query_where q fn h"
| "Query_call (Flat n) q h = Query_flat q n h"
| "Query_call (Take n) q h = Query_take q n h"
| "Query_call (Skip n) q h = Query_skip q n h"
| "Query_call (Map fn) q h = Query_map q fn h"

text \<open>A chain of such calls, \<^verbatim>\<open>q.a(..).b(..)\<close>: each is made on what the one before returned.\<close>

fun Query_chain :: "stage list \<Rightarrow> nat \<Rightarrow> heap \<Rightarrow> nat \<times> heap" where
  "Query_chain [] q h = (q, h)"
| "Query_chain (st # sts) q h = (case Query_call st q h of (q', h') \<Rightarrow> Query_chain sts q' h')"

section \<open>\<^verbatim>\<open>BuildSelectRule\<close> on a store of objects\<close>

text \<open>
  In the model of the pipeline above a value stands for its contents. What the rule of
  \<^verbatim>\<open>select\<close> does with objects, which it reads by \<^verbatim>\<open>val[field]\<close> and makes by \<^verbatim>\<open>{}\<close> and
  \<^verbatim>\<open>obj[field] = ...\<close>, depends on which object is which and on what an object inherits:
  here the two generator bodies of \<^verbatim>\<open>BuildSelectRule\<close> run on a store of objects.
\<close>

text \<open>
  A value is a primitive or a reference to an object of the store; two references are
  the same object exactly when they are equal.
\<close>

datatype ref_val = RUndefined | RNull | RBool bool | RNum int | RStr string | Ref nat

text \<open>
  A property is a writable data property holding a value, or the accessor \<^verbatim>\<open>__proto__\<close>
  of the built-in object prototype, whose getter returns the prototype of the object it
  is read on and whose setter sets it. Other accessors, and data properties that cannot
  be written, are not represented.
\<close>

datatype slot = Data ref_val | ProtoAccessor

text \<open>
  An object has its own properties and its prototype chain: the addresses of its
  prototype, of the prototype of that, and so on, nearest first. Arrays and functions
  are objects; the indices and the length of an array are own properties of it. The
  store is the list of the allocated objects, an object's address its position.
\<close>

record js_object =
  slots :: "string \<Rightarrow> slot option"
  protos :: "nat list"

type_synonym store = "js_object list"

text \<open>
  What the host provides: the prototype chain of an object made by \<^verbatim>\<open>{}\<close>, and those
  that property reads on a string, a number and a boolean go through.
\<close>

record host =
  object_chain :: "nat list"
  string_chain :: "nat list"
  number_chain :: "nat list"
  boolean_chain :: "nat list"

text \<open>The own properties of a string: its length and its characters by index.\<close>

definition string_slots :: "string \<Rightarrow> string \<Rightarrow> slot option" where
  "string_slots s field =
     (if field = ''length'' then Some (Data (RNum (int (length s))))
      else case array_index field of
             None \<Rightarrow> None
           | Some k \<Rightarrow> if k < length s then Some (Data (RStr [s ! k])) else None)"

fun own_slots :: "store \<Rightarrow> ref_val \<Rightarrow> string \<Rightarrow> slot option" where
  "own_slots h (Ref a) = (if a < length h then slots (h ! a) else Map.empty)"
| "own_slots h (RStr s) = string_slots s"
| "own_slots h v = Map.empty"

fun proto_chain :: "host \<Rightarrow> store \<Rightarrow> ref_val \<Rightarrow> nat list" where
  "proto_chain H h (Ref a) = (if a < length h then protos (h ! a) else [])"
| "proto_chain H h (RStr s) = string_chain H"
| "proto_chain H h (RNum n) = number_chain H"
| "proto_chain H h (RBool b) = boolean_chain H"
| "proto_chain H h v = []"

fun inherited_slot :: "store \<Rightarrow> nat list \<Rightarrow> string \<Rightarrow> slot option" where
  "inherited_slot h [] field = None"
| "inherited_slot h (p # ps) field =
     (case own_slots h (Ref p) field of
        Some s \<Rightarrow> Some s
      | None \<Rightarrow> inherited_slot h ps field)"

text \<open>The property that a name resolves to: an own one first, then along the chain.\<close>

definition find_slot :: "host \<Rightarrow> store \<Rightarrow> ref_val \<Rightarrow> string \<Rightarrow> slot option" where
  "find_slot H h v field =
     (case own_slots h v field of
        Some s \<Rightarrow> Some s
      | None \<Rightarrow> inherited_slot h (proto_chain H h v) field)"

definition get_prototype :: "host \<Rightarrow> store \<Rightarrow> ref_val \<Rightarrow> ref_val" where
  "get_prototype H h v = (case proto_chain H h v of [] \<Rightarrow> RNull | p # ps \<Rightarrow> Ref p)"

text \<open>\<^verbatim>\<open>val[field]\<close> on a value other than \<^verbatim>\<open>null\<close> and \<^verbatim>\<open>undefined\<close>, on which it throws.\<close>

definition read_property :: "host \<Rightarrow> store \<Rightarrow> ref_val \<Rightarrow> string \<Rightarrow> ref_val" where
  "read_property H h v field =
     (case find_slot H h v field of
        None \<Rightarrow> RUndefined
      | Some (Data x) \<Rightarrow> x
      | Some ProtoAccessor \<Rightarrow> get_prototype H h v)"

fun property_get :: "host \<Rightarrow> store \<Rightarrow> ref_val \<Rightarrow> string \<Rightarrow> error + ref_val" where
  "property_get H h RUndefined field = Inl CannotReadProperty"
| "property_get H h RNull field = Inl CannotReadProperty"
| "property_get H h v field = Inr (read_property H h v field)"

text \<open>
  \<^verbatim>\<open>obj[field] = x\<close> on the object at address \<open>obj\<close>: when the name resolves to the
  accessor, its setter sets the prototype of \<open>obj\<close> if \<open>x\<close> is an object or \<^verbatim>\<open>null\<close> and does
  nothing otherwise, and no own property is made; in every other case \<open>obj\<close> gets or
  updates its own property \<open>field\<close>.
\<close>

definition property_set :: "host \<Rightarrow> store \<Rightarrow> nat \<Rightarrow> string \<Rightarrow> ref_val \<Rightarrow> store" where
  "property_set H h obj field x =
     (case find_slot H h (Ref obj) field of
        Some ProtoAccessor \<Rightarrow>
          (case x of
             Ref p \<Rightarrow> h[obj := (h ! obj)\<lparr>protos := p # proto_chain H h (Ref p)\<rparr>]
           | RNull \<Rightarrow> h[obj := (h ! obj)\<lparr>protos := []\<rparr>]
           | _ \<Rightarrow> h)
      | _ \<Rightarrow> h[obj := (h ! obj)\<lparr>slots := (slots (h ! obj))(field \<mapsto> Data x)\<rparr>])"

text \<open>\<^verbatim>\<open>const obj = {}\<close>: a new object at the next address.\<close>

definition new_object :: "host \<Rightarrow> store \<Rightarrow> nat \<times> store" where
  "new_object H h = (length h, h @ [\<lparr>slots = Map.empty, protos = object_chain H\<rparr>])"

text \<open>\<^verbatim>\<open>for (const field of fields) obj[field] = val[field]\<close>, then \<^verbatim>\<open>yield obj\<close>.\<close>

fun copy_properties ::
  "host \<Rightarrow> string list \<Rightarrow> ref_val \<Rightarrow> nat \<Rightarrow> store \<Rightarrow> (error + ref_val) \<times> store" where
  "copy_properties H [] val obj h = (Inr (Ref obj), h)"
| "copy_properties H (field # rest) val obj h =
     (case property_get H h val field of
        Inl e \<Rightarrow> (Inl e, h)
      | Inr x \<Rightarrow> copy_properties H rest val obj (property_set H h obj field x))"

definition select_record :: "host \<Rightarrow> string list \<Rightarrow> ref_val \<Rightarrow> store \<Rightarrow> (error + ref_val) \<times> store" where
  "select_record H fs val h = (case new_object H h of (obj, h1) \<Rightarrow> copy_properties H fs val obj h1)"

text \<open>\<^verbatim>\<open>yield val[fields]\<close>\<close>

definition select_value :: "host \<Rightarrow> string \<Rightarrow> ref_val \<Rightarrow> store \<Rightarrow> (error + ref_val) \<times> store" where
  "select_value H f val h =
     (case property_get H h val f of Inl e \<Rightarrow> (Inl e, h) | Inr x \<Rightarrow> (Inr x, h))"

text \<open>
  The generator run over the elements \<open>vals\<close> of its input, one iteration of the loop
  body after the other on the store the one before left; \<open>out\<close> are the values yielded
  so far.
\<close>

fun select_each ::
  "(ref_val \<Rightarrow> store \<Rightarrow> (error + ref_val) \<times> store) \<Rightarrow> ref_val list \<Rightarrow> ref_val list \<Rightarrow> store
    \<Rightarrow> (error + ref_val list) \<times> store" where
  "select_each body [] out h = (Inr out, h)"
| "select_each body (val # rest) out h =
     (case body val h of
        (Inl e, h') \<Rightarrow> (Inl e, h')
      | (Inr x, h') \<Rightarrow> select_each body rest (out @ [x]) h')"

fun select_on_store :: "host \<Rightarrow> fields \<Rightarrow> ref_val list \<Rightarrow> store \<Rightarrow> (error + ref_val list) \<times> store" where
  "select_on_store H (Names fs) vals h = select_each (select_record H fs) vals [] h"
| "select_on_store H (Name f) vals h = select_each (select_value H f) vals [] h"

section \<open>Auxiliary notions for the statements\<close>

text \<open>The sequence that yields the values \<open>xs\<close> in order and then goes on as \<open>k\<close>.\<close>

fun yields :: "val list \<Rightarrow> seq \<Rightarrow> seq" where
  "yields [] k = k"
| "yields (x # xs) k = SYield x (yields xs k)"

text \<open>
  Sequential composition of a list of rules, as a specification: the first rule is
  applied to the input, and the generator each rule returns is the input of the next.
\<close>

definition sequential :: "QueryRule list \<Rightarrow> source \<Rightarrow> source" where
  "sequential rules it = foldl (\<lambda>src rule. Generator (rule src)) it rules"

text \<open>
  The client program \<^verbatim>\<open>query().s1(..). ... .sn(..).on(S)\<close> in the empty store, consumed by
  \<^verbatim>\<open>collect()\<close> and, for \<open>run_lazily\<close>, given as the generator that iterating it runs.
\<close>

definition run :: "stage list \<Rightarrow> source \<Rightarrow> error + val list" where
  "run stages S =
     (case iq_query empty_heap of (q0, h0) \<Rightarrow>
        case Query_chain stages q0 h0 of (q, h) \<Rightarrow> collect (Query_on q S h))"

definition run_lazily :: "stage list \<Rightarrow> source \<Rightarrow> seq" where
  "run_lazily stages S =
     (case iq_query empty_heap of (q0, h0) \<Rightarrow>
        case Query_chain stages q0 h0 of (q, h) \<Rightarrow> Symbol_iterator (Query_on q S h))"



text \<open>
  A callback for \<^verbatim>\<open>acollect\<close> whose effect is to record each of its invocations: the
  caller's state is the list of the arguments it has been called with so far.
\<close>

definition logged ::
  "(val \<Rightarrow> nat \<Rightarrow> error + 'p async) \<Rightarrow> val \<Rightarrow> nat \<Rightarrow> (val \<times> nat) list
    \<Rightarrow> (error + 'p async) \<times> (val \<times> nat) list" where
  "logged f v i log = (f v i, log @ [(v, i)])"

text \<open>
  A store in which the prototype chains of the host and of a value name allocated
  objects only.
\<close>

definition closed_chain :: "store \<Rightarrow> nat list \<Rightarrow> bool" where
  "closed_chain h ps = list_all (\<lambda>p. p < length h) ps"

fun closed_value :: "store \<Rightarrow> ref_val \<Rightarrow> bool" where
  "closed_value h (Ref a) = (a < length h \<and> closed_chain h (protos (h ! a)))"
| "closed_value h v = True"

definition closed_host :: "host \<Rightarrow> store \<Rightarrow> bool" where
  "closed_host H h \<longleftrightarrow> closed_chain h (object_chain H) \<and> closed_chain h (string_chain H)
     \<and> closed_chain h (number_chain H) \<and> closed_chain h (boolean_chain H)"

text \<open>A value that properties can be read on.\<close>

definition has_fields :: "ref_val \<Rightarrow> bool" where
  "has_fields v \<longleftrightarrow> v \<noteq> RUndefined \<and> v \<noteq> RNull"

text \<open>
  A name that, on a new object made by \<^verbatim>\<open>{}\<close>, does not resolve to the inherited accessor
  (as \<^verbatim>\<open>__proto__\<close> does in a host's usual store).
\<close>

definition plain_name :: "host \<Rightarrow> store \<Rightarrow> string \<Rightarrow> bool" where
  "plain_name H h field \<longleftrightarrow> inherited_slot h (object_chain H) field \<noteq> Some ProtoAccessor"

text \<open>
  The record with exactly the keys \<open>fs\<close>, each holding what reading that property of \<open>v\<close>
  gives in the store \<open>h\<close>.
\<close>

definition projection :: "host \<Rightarrow> store \<Rightarrow> string list \<Rightarrow> ref_val \<Rightarrow> js_object" where
  "projection H h fs v =
     \<lparr>slots = (\<lambda>f. if f \<in> set fs then Some (Data (read_property H h v f)) else None),
      protos = object_chain H\<rparr>"

subsection \<open>Example inputs\<close>

text \<open>The store after \<^verbatim>\<open>const A = query().take(1)\<close>; \<open>A\<close> is the object \<open>0\<close>.\<close>

definition heap_take1 :: heap where
  "heap_take1 = snd (Query_take 0 1 (snd (iq_query empty_heap)))"


text \<open>A callback that returns its argument for the indices 0 and 1 and throws from 2 on.\<close>

definition throws_from_2 :: "val \<Rightarrow> nat \<Rightarrow> error + unit async" where
  "throws_from_2 v i = (if i < 2 then Inr (Plain v) else Inl (Thrown ''fn''))"

definition greater_than_2 :: "val \<Rightarrow> nat \<Rightarrow> bool" where
  "greater_than_2 v i = (case v of Num x \<Rightarrow> 2 < x | _ \<Rightarrow> False)"

text \<open>A callback that never throws: it returns a pending result for every value.\<close>

definition pending_all :: "val \<Rightarrow> nat \<Rightarrow> error + nat async" where
  "pending_all v i = Inr (Pending i)"

text \<open>
  A store with the object prototype at address 0 (its accessor \<^verbatim>\<open>__proto__\<close> and its data
  property \<^verbatim>\<open>constructor\<close>, the function at address 1), the record \<^verbatim>\<open>{a: 1, b: o, c: 3}\<close> at
  address 2 and the record \<^verbatim>\<open>o = {x: 5}\<close> at address 3; every chain of the host is the
  object prototype alone.
\<close>

definition example_host :: host where
  "example_host = \<lparr>object_chain = [0], string_chain = [0], number_chain = [0], boolean_chain = [0]\<rparr>"

definition example_store :: store where
  "example_store =
     [\<lparr>slots = Map.empty(''__proto__'' \<mapsto> ProtoAccessor, ''constructor'' \<mapsto> Data (Ref 1)), protos = []\<rparr>,
      \<lparr>slots = Map.empty, protos = [0]\<rparr>,
      \<lparr>slots = Map.empty(''a'' \<mapsto> Data (RNum 1), ''b'' \<mapsto> Data (Ref 3), ''c'' \<mapsto> Data (RNum 3)),
        protos = [0]\<rparr>,
      \<lparr>slots = Map.empty(''x'' \<mapsto> Data (RNum 5)), protos = [0]\<rparr>]"

section \<open>Basic facts\<close>



lemma delegate_SDone: "delegate s SDone = s"
  by (induction s) simp_all


lemma array_from_Inr:
  "array_from s acc = Inr out \<Longrightarrow> \<exists>ys. out = acc @ ys \<and> s = array_iterator ys"
proof (induction s arbitrary: acc)
  case SDone
  then show ?case by simp
next
  case (SThrow e)
  then show ?case by simp
next
  case (SYield v rest)
  from SYield.prems have "array_from rest (acc @ [v]) = Inr out" by simp
  from SYield.IH [OF this] obtain ys where "out = (acc @ [v]) @ ys" "rest = array_iterator ys"
    by blast
  then have "out = acc @ (v # ys) \<and> SYield v rest = array_iterator (v # ys)" by simp
  then show ?case by blast
qed

lemma Symbol_iterator_new:
  "Symbol_iterator (new_QueryExecutor c S) = c (case S of Value Undefined \<Rightarrow> Value Null | _ \<Rightarrow> S)"
  by (simp add: Symbol_iterator_def new_QueryExecutor_def yield_star_def delegate_SDone)

subsection \<open>The loops of the rules\<close>

lemma take_loop_array:
  "take_loop n taken (array_iterator xs) = array_iterator (take (nat (n - int taken)) xs)"
proof (induction xs arbitrary: taken)
  case Nil
  then show ?case by simp
next
  case (Cons x xs)
  show ?case
  proof (cases "n \<le> int taken")
    case True
    then show ?thesis by simp
  next
    case False
    then have "nat (n - int taken) = Suc (nat (n - int (taken + 1)))" by simp
    with False Cons show ?thesis by (simp del: of_nat_Suc of_nat_add)
  qed
qed

lemma take_loop_yields:
  "take_loop (int (taken + length xs)) taken (yields xs k) =
     yields xs (case k of SYield v rest \<Rightarrow> SDone | SDone \<Rightarrow> SDone | SThrow e \<Rightarrow> SThrow e)"
proof (induction xs arbitrary: taken)
  case Nil
  then show ?case by (cases k) simp_all
next
  case (Cons x xs)
  from Cons [of "taken + 1"] show ?case by simp
qed




lemma where_loop_array:
  "where_loop (\<lambda>v i. Inr (g v i)) i (array_iterator xs) =
     array_iterator (map fst (filter (\<lambda>(v, j). to_boolean (g v j)) (zip xs [i ..< i + length xs])))"
proof (induction xs arbitrary: i)
  case Nil
  then show ?case by simp
next
  case (Cons x xs)
  have "[i ..< i + length (x # xs)] = i # [i + 1 ..< (i + 1) + length xs]"
    by (simp add: upt_rec)
  with Cons [of "i + 1"] show ?case by simp
qed

lemma acollect_loop_logged:
  "map (\<lambda>(v, j). f v j) (zip vs [i ..< i + length vs]) = map Inr ps \<Longrightarrow>
   acollect_loop (logged f) i acc (yields vs k) log =
     acollect_loop (logged f) (i + length vs) (acc @ ps) k (log @ zip vs [i ..< i + length vs])"
proof (induction vs arbitrary: i acc log ps)
  case Nil
  then show ?case by simp
next
  case (Cons v vs)
  have up: "[i ..< i + length (v # vs)] = i # [i + 1 ..< (i + 1) + length vs]"
    by (simp add: upt_rec)
  with Cons.prems obtain p ps' where ps: "ps = p # ps'" "f v i = Inr p"
    "map (\<lambda>(v, j). f v j) (zip vs [i + 1 ..< (i + 1) + length vs]) = map Inr ps'"
    by (cases ps) auto
  from Cons.IH [OF ps(3), of "acc @ [p]" "log @ [(v, i)]"] ps(1,2) up show ?case
    by (simp add: logged_def)
qed

lemma acollect_loop_identity:
  "acollect_loop (\<lambda>x i s. (Inr (Plain x), s)) i acc (yields vs k) s =
     acollect_loop (\<lambda>x i s. (Inr (Plain x), s)) (i + length vs) (acc @ map Plain vs) k s"
  by (induction vs arbitrary: i acc) simp_all

subsection \<open>Compilation\<close>

lemma compile_loop_foldl:
  "compile_loop c rs it = get_iterator (foldl (\<lambda>src rule. Generator (rule src)) (Generator (c it)) rs)"
  by (induction rs arbitrary: c) simp_all

lemma compile_rules_sequential: "compile_rules rs it = get_iterator (sequential rs it)"
proof (cases rs)
  case Nil
  then show ?thesis by (simp add: compile_rules_def sequential_def yield_star_def delegate_SDone)
next
  case (Cons r rs')
  then show ?thesis by (simp add: compile_rules_def sequential_def compile_loop_foldl)
qed

lemma compile_rules_single: "compile_rules [c] = c"
  by (simp add: compile_rules_def)

lemma BuildSelectRule_get_iterator:
  "BuildSelectRule fs it = BuildSelectRule fs (Generator (get_iterator it))"
  by (cases fs) simp_all

lemma BuildRule_get_iterator: "BuildRule st it = BuildRule st (Generator (get_iterator it))"
  using BuildSelectRule_get_iterator
  by (cases st) (simp_all add: BuildWhereRule_def BuildFlatRule_def BuildTakeRule_def
      BuildSkipRule_def BuildMapRule_def)

lemma compile_stages_get_iterator:
  "compile_rules (map BuildRule sts) it = compile_rules (map BuildRule sts) (Generator (get_iterator it))"
proof (cases sts)
  case Nil
  then show ?thesis by (simp add: compile_rules_sequential sequential_def)
next
  case (Cons st sts')
  then show ?thesis
    using BuildRule_get_iterator [of st it] by (simp add: compile_rules_sequential sequential_def)
qed

lemma compile_rules_append:
  "compile_rules (map BuildRule (R1 @ R2)) it =
     compile_rules (map BuildRule R2) (Generator (compile_rules (map BuildRule R1) it))"
proof -
  have "compile_rules (map BuildRule (R1 @ R2)) it =
      get_iterator (sequential (map BuildRule R2) (sequential (map BuildRule R1) it))"
    by (simp add: compile_rules_sequential sequential_def)
  also have "\<dots> = compile_rules (map BuildRule R2) (sequential (map BuildRule R1) it)"
    by (simp add: compile_rules_sequential)
  also have "\<dots> = compile_rules (map BuildRule R2)
      (Generator (get_iterator (sequential (map BuildRule R1) it)))"
    by (rule compile_stages_get_iterator)
  finally show ?thesis by (simp add: compile_rules_sequential)
qed

lemma BuildSelectRule_SThrow:
  "get_iterator src = SThrow e \<Longrightarrow> BuildSelectRule fs src = SThrow e"
  by (cases fs) simp_all

lemma BuildRule_SThrow: "get_iterator src = SThrow e \<Longrightarrow> BuildRule st src = SThrow e"
  by (cases st) (simp_all add: BuildSelectRule_SThrow BuildWhereRule_def BuildFlatRule_def
      BuildTakeRule_def BuildSkipRule_def BuildMapRule_def)

lemma sequential_SThrow:
  "get_iterator src = SThrow e \<Longrightarrow> get_iterator (sequential (map BuildRule sts) src) = SThrow e"
proof (induction sts arbitrary: src)
  case Nil
  then show ?case by (simp add: sequential_def)
next
  case (Cons st sts)
  from Cons.prems have "get_iterator (Generator (BuildRule st src)) = SThrow e"
    by (simp add: BuildRule_SThrow)
  from Cons.IH [OF this] show ?case by (simp add: sequential_def)
qed

lemma not_iterable_default:
  "get_iterator src = SThrow NotIterable \<Longrightarrow>
     get_iterator (case src of Value Undefined \<Rightarrow> Value Null | _ \<Rightarrow> src) = SThrow NotIterable"
  by (cases src rule: get_iterator.cases) simp_all

subsection \<open>The store\<close>

lemma Query_call_pushrule: "Query_call st q h = pushrule q (BuildRule st) h"
  by (cases st) (simp_all add: Query_select_def Query_where_def Query_flat_def
      Query_take_def Query_skip_def Query_map_def)





lemma Query_chain_result:
  "Query_chain sts q h = (q', h') \<Longrightarrow> q' = q \<and> this_rules q h' = this_rules q h @ map BuildRule sts"
proof (induction sts arbitrary: h)
  case Nil
  then show ?case by simp
next
  case (Cons st sts)
  let ?h1 = "snd (pushrule q (BuildRule st) h)"
  from Cons.prems have "Query_chain sts q ?h1 = (q', h')"
    by (simp add: Query_call_pushrule pushrule_def)
  from Cons.IH [OF this] show ?case
    by (simp add: pushrule_def this_rules_def)
qed

lemma run_lazily_compile:
  "run_lazily sts S =
     compile_rules (map BuildRule sts) (case S of Value Undefined \<Rightarrow> Value Null | _ \<Rightarrow> S)"
proof -
  obtain q0 h0 where a: "iq_query empty_heap = (q0, h0)" by (cases "iq_query empty_heap")
  obtain q h where b: "Query_chain sts q0 h0 = (q, h)" by (cases "Query_chain sts q0 h0")
  from a have "this_rules q0 h0 = []"
    by (auto simp add: iq_query_def new_Query_def new_array_def empty_heap_def this_rules_def)
  with Query_chain_result [OF b] have "q = q0" "this_rules q h = map BuildRule sts" by simp_all
  with a b show ?thesis
    by (simp add: run_lazily_def Query_on_def Query_compile_def Symbol_iterator_new)
qed

lemma run_array_from: "run sts S = array_from (run_lazily sts S) []"
  by (simp add: run_def run_lazily_def collect_def split: prod.splits)

lemma heap_take1_fields:
  "n_queries heap_take1 = 1" "n_arrays heap_take1 = 1" "queries heap_take1 0 = 0"
  "arrays heap_take1 0 = [BuildTakeRule 1]"
  by (simp_all add: heap_take1_def Query_take_def pushrule_def this_rules_def iq_query_def
      new_Query_def new_array_def empty_heap_def)

subsection \<open>The store of objects\<close>

lemma own_slots_append: "closed_chain h [p] \<Longrightarrow> own_slots (h @ ys) (Ref p) = own_slots h (Ref p)"
  by (simp add: closed_chain_def nth_append)

lemma inherited_slot_append:
  "closed_chain h ps \<Longrightarrow> inherited_slot (h @ ys) ps f = inherited_slot h ps f"
  by (induction ps) (simp_all add: closed_chain_def nth_append split: option.splits)

lemma proto_chain_append:
  "closed_value h v \<Longrightarrow> proto_chain H (h @ ys) v = proto_chain H h v"
  by (cases v) (simp_all add: nth_append)

lemma closed_proto_chain:
  "closed_value h v \<Longrightarrow> closed_host H h \<Longrightarrow> closed_chain h (proto_chain H h v)"
  by (cases v) (simp_all add: closed_host_def closed_chain_def)

lemma find_slot_append:
  assumes "closed_value h v" and "closed_host H h"
  shows "find_slot H (h @ ys) v f = find_slot H h v f"
proof -
  have "own_slots (h @ ys) v = own_slots h v"
    using assms(1) by (cases v) (simp_all add: nth_append)
  then show ?thesis
    using assms
    by (simp add: find_slot_def proto_chain_append inherited_slot_append closed_proto_chain
        split: option.splits)
qed

lemma read_property_append:
  "closed_value h v \<Longrightarrow> closed_host H h \<Longrightarrow> read_property H (h @ ys) v f = read_property H h v f"
  by (simp add: read_property_def find_slot_append get_prototype_def proto_chain_append
      split: option.splits slot.splits)

lemma property_get_has_fields:
  "has_fields v \<Longrightarrow> property_get H h v f = Inr (read_property H h v f)"
  by (cases v) (simp_all add: has_fields_def)

lemma closed_chain_append: "closed_chain h ps \<Longrightarrow> closed_chain (h @ ys) ps"
  by (induction ps) (simp_all add: closed_chain_def)

lemma closed_value_append: "closed_value h v \<Longrightarrow> closed_value (h @ ys) v"
  by (cases v) (simp_all add: closed_chain_append nth_append)

lemma closed_host_append: "closed_host H h \<Longrightarrow> closed_host H (h @ ys)"
  by (simp add: closed_host_def closed_chain_append)

lemma plain_name_append: "closed_host H h \<Longrightarrow> plain_name H (h @ ys) f = plain_name H h f"
  by (simp add: plain_name_def closed_host_def inherited_slot_append)

lemma projection_append:
  "closed_value h v \<Longrightarrow> closed_host H h \<Longrightarrow> projection H (h @ ys) fs v = projection H h fs v"
  by (simp add: projection_def read_property_append cong: if_cong)

lemma copy_properties_plain:
  assumes "closed_value h v" and "closed_host H h" and "has_fields v"
    and "list_all (plain_name H h) fs"
  shows "copy_properties H fs v (length h) (h @ [projection H h ds v]) =
           (Inr (Ref (length h)), h @ [projection H h (ds @ fs) v])"
  using assms(4)
proof (induction fs arbitrary: ds)
  case Nil
  then show ?case by simp
next
  case (Cons f fs)
  let ?o = "projection H h ds v"
  have g: "property_get H (h @ [?o]) v f = Inr (read_property H h v f)"
    using assms(1-3) by (simp add: property_get_has_fields read_property_append)
  have inh: "inherited_slot (h @ [?o]) (object_chain H) f \<noteq> Some ProtoAccessor"
    using Cons.prems assms(2) by (simp add: plain_name_def closed_host_def inherited_slot_append)
  have "find_slot H (h @ [?o]) (Ref (length h)) f \<noteq> Some ProtoAccessor"
    using inh by (simp add: find_slot_def projection_def)
  then have s: "property_set H (h @ [?o]) (length h) f (read_property H h v f) =
      h @ [projection H h (ds @ [f]) v]"
    by (auto simp add: property_set_def projection_def fun_eq_iff split: option.splits slot.splits)
  from Cons.prems have "list_all (plain_name H h) fs" by simp
  from Cons.IH [OF this, of "ds @ [f]"] g s show ?case by simp
qed

lemma select_record_plain:
  assumes "closed_value h v" and "closed_host H h" and "has_fields v"
    and "list_all (plain_name H h) fs"
  shows "select_record H fs v h = (Inr (Ref (length h)), h @ [projection H h fs v])"
proof -
  have "\<lparr>slots = Map.empty, protos = object_chain H\<rparr> = projection H h [] v"
    by (simp add: projection_def)
  with copy_properties_plain [OF assms, of "[]"] show ?thesis
    by (simp add: select_record_def new_object_def)
qed

lemma select_each_record:
  assumes "closed_host H h" and "list_all (plain_name H h) fs"
  shows "list_all (closed_value h) vs \<Longrightarrow> list_all has_fields vs \<Longrightarrow>
    select_each (select_record H fs) vs out (h @ ys) =
      (Inr (out @ map Ref [length h + length ys ..< length h + length ys + length vs]),
       h @ ys @ map (projection H h fs) vs)"
proof (induction vs arbitrary: out ys)
  case Nil
  then show ?case by simp
next
  case (Cons v vs)
  from Cons.prems have cv: "closed_value h v" and hf: "has_fields v" by simp_all
  have pn: "list_all (plain_name H (h @ ys)) fs"
    using assms by (simp add: plain_name_append list_all_iff)
  have "select_record H fs v (h @ ys) =
      (Inr (Ref (length (h @ ys))), (h @ ys) @ [projection H (h @ ys) fs v])"
    by (rule select_record_plain [OF closed_value_append [OF cv] closed_host_append [OF assms(1)] hf pn])
  then have step: "select_record H fs v (h @ ys) =
      (Inr (Ref (length h + length ys)), h @ (ys @ [projection H h fs v]))"
    using cv assms(1) by (simp add: projection_append)
  from Cons.prems have "list_all (closed_value h) vs" "list_all has_fields vs" by simp_all
  from Cons.IH [OF this, of "out @ [Ref (length h + length ys)]" "ys @ [projection H h fs v]"]
  have rest: "select_each (select_record H fs) vs (out @ [Ref (length h + length ys)])
      (h @ ys @ [projection H h fs v]) =
      (Inr (out @ Ref (length h + length ys) #
          map Ref [length h + length ys + 1 ..< length h + length ys + 1 + length vs]),
       h @ ys @ projection H h fs v # map (projection H h fs) vs)"
    by simp
  have up: "[length h + length ys ..< length h + length ys + length (v # vs)] =
      (length h + length ys) # [length h + length ys + 1 ..< length h + length ys + 1 + length vs]"
    by (simp add: upt_rec)
  from step rest show ?case unfolding up by simp
qed

lemma select_each_value:
  "list_all has_fields vs \<Longrightarrow>
    select_each (select_value H f) vs out h = (Inr (out @ map (\<lambda>v. read_property H h v f) vs), h)"
  by (induction vs arbitrary: out) (simp_all add: select_value_def property_get_has_fields)

lemmas store_eval = select_record_def new_object_def select_value_def read_property_def
  find_slot_def property_set_def get_prototype_def example_host_def example_store_def nth_append

section \<open>Compilation of the rules\<close>

text \<open>
  C1. \<^verbatim>\<open>compile()\<close> returns one transformer that is the sequential composition of the
  rules of \<^verbatim>\<open>this.rules\<close>, applied in list order, and the identity transformer (it
  yields what its input yields) when the list is empty. Consequently, for every source
  \<open>S\<close> and all stage lists \<open>R1\<close> and \<open>R2\<close>, running the stages \<open>R1\<close> followed by \<open>R2\<close> on
  \<open>S\<close> yields what the pipeline of \<open>R2\<close> yields on the output of the pipeline of \<open>R1\<close>
  on \<open>S\<close>; and when \<^verbatim>\<open>collect()\<close> gives the full output of \<open>R1\<close> on \<open>S\<close> as an array,
  feeding that array as the source to \<open>R2\<close> gives the same result.
\<close>

theorem compile_is_sequential_composition:
  "Query_compile q h it = get_iterator (sequential (this_rules q h) it)
   \<and> compile_rules [] it = get_iterator it
   \<and> run_lazily (R1 @ R2) S = run_lazily R2 (Generator (run_lazily R1 S))
   \<and> (run R1 S = Inr out \<longrightarrow> run (R1 @ R2) S = run R2 (Value (Arr out)))"
proof -
  let ?S = "case S of Value Undefined \<Rightarrow> Value Null | _ \<Rightarrow> S"
  have a: "Query_compile q h it = get_iterator (sequential (this_rules q h) it)"
    by (simp add: Query_compile_def compile_rules_sequential)
  have b: "compile_rules [] it = get_iterator it"
    by (simp add: compile_rules_sequential sequential_def)
  have c: "run_lazily (R1 @ R2) S = run_lazily R2 (Generator (run_lazily R1 S))"
    using compile_rules_append [of R1 R2 ?S] by (simp add: run_lazily_compile)
  have d: "run (R1 @ R2) S = run R2 (Value (Arr out))" if "run R1 S = Inr out"
  proof -
    from that have "array_from (run_lazily R1 S) [] = Inr out" by (simp add: run_array_from)
    from array_from_Inr [OF this] have "run_lazily R1 S = get_iterator (Value (Arr out))" by simp
    then have "run_lazily R2 (Generator (run_lazily R1 S)) = run_lazily R2 (Value (Arr out))"
      using compile_stages_get_iterator [of R2 "Value (Arr out)"] by (simp add: run_lazily_compile)
    with c show ?thesis by (simp add: run_array_from)
  qed
  from a b c d show ?thesis by blast
qed

theorem compile_is_sequential_composition_witness:
  "run [Skip 1] (Value (Arr [Num 1, Num 2, Num 3])) = Inr [Num 2, Num 3]
   \<and> run ([Skip 1] @ [Take 1]) (Value (Arr [Num 1, Num 2, Num 3])) =
       run [Take 1] (Value (Arr [Num 2, Num 3]))
   \<and> run [Take 1] (Value (Arr [Num 2, Num 3])) = Inr [Num 2]"
proof -
  have a: "run [Skip 1] (Value (Arr [Num 1, Num 2, Num 3])) = Inr [Num 2, Num 3]"
    by (simp add: run_array_from run_lazily_compile compile_rules_def BuildSkipRule_def)
  have b: "run [Take 1] (Value (Arr [Num 2, Num 3])) = Inr [Num 2]"
    by (simp add: run_array_from run_lazily_compile compile_rules_def BuildTakeRule_def)
  from a b compile_is_sequential_composition
    [of _ _ _ "[Skip 1]" "[Take 1]" "Value (Arr [Num 1, Num 2, Num 3])" "[Num 2, Num 3]"]
  show ?thesis by simp
qed

section \<open>The rules\<close>

text \<open>
  C2, as amended. For every \<open>n\<close> and every input, the \<^verbatim>\<open>take(n)\<close> rule yields exactly the
  first \<open>n\<close> elements of the input (all of the input if it has fewer than \<open>n\<close>
  elements). Once \<open>n\<close> elements have been yielded and the consumer asks again, the rule
  pulls one more element from upstream: if that pull gives a value, the value is
  discarded and the rule stops, so nothing after the element \<open>n + 1\<close> is requested; if
  that pull ends the input the rule ends; if that pull fails, its failure propagates.
\<close>

theorem take_yields_prefix_after_one_more_pull:
  "BuildTakeRule n (Value (Arr xs)) = array_iterator (take (nat n) xs)
   \<and> BuildTakeRule (int (length xs)) (Generator (yields xs k)) =
       yields xs (case k of SYield v rest \<Rightarrow> SDone | SDone \<Rightarrow> SDone | SThrow e \<Rightarrow> SThrow e)"
  using take_loop_array [of n 0 xs] take_loop_yields [of 0 xs k]
  by (simp add: BuildTakeRule_def)

theorem take_yields_prefix_after_one_more_pull_witness:
  "BuildTakeRule 2 (Value (Arr [Num 1, Num 2, Num 3])) = array_iterator [Num 1, Num 2]
   \<and> BuildTakeRule 2 (Generator (yields [Num 1, Num 2] (SYield (Num 3) (SThrow (Thrown ''later'')))))
       = yields [Num 1, Num 2] SDone"
  using take_yields_prefix_after_one_more_pull [of 2 "[Num 1, Num 2, Num 3]" SDone]
    take_yields_prefix_after_one_more_pull
      [of 0 "[Num 1, Num 2]" "SYield (Num 3) (SThrow (Thrown ''later''))"]
  by simp

text \<open>
  The pull after the \<open>n\<close>-th element is observable: with \<open>n = 1\<close> and an upstream that
  yields one value and fails on the second pull, the rule yields the value and then
  fails, and \<^verbatim>\<open>query().flat().take(1).on([[1], 2]).collect()\<close> throws because the second
  element of the source is pulled and is not iterable.
\<close>

theorem take_pulls_after_nth_counterexample:
  "BuildTakeRule 1 (Generator (SYield (Num 1) (SThrow (Thrown ''second pull'')))) =
     SYield (Num 1) (SThrow (Thrown ''second pull''))
   \<and> run [Flat None, Take 1] (Value (Arr [Arr [Num 1], Num 2])) = Inl NotIterable"
  by (simp add: BuildTakeRule_def BuildFlatRule_def run_array_from run_lazily_compile
      compile_rules_def yield_star_def)



text \<open>
  C6. For every predicate and every input, the \<^verbatim>\<open>where\<close> rule yields an element,
  unchanged, if and only if the predicate returns true on it, and the index passed to
  the predicate is the position of the element in the input: it counts every element
  pulled so far, whatever the predicate returned on it, not the elements yielded.
  (For a function \<open>g\<close> that returns values other than \<^verbatim>\<open>true\<close> and \<^verbatim>\<open>false\<close>, the element is
  yielded when the result counts as true.)
\<close>

theorem where_filters_by_input_position:
  "BuildWhereRule (\<lambda>v i. Inr (Bool (p v i))) (Value (Arr xs)) =
     array_iterator (map fst (filter (\<lambda>(v, i). p v i) (zip xs [0 ..< length xs])))
   \<and> BuildWhereRule (\<lambda>v i. Inr (g v i)) (Value (Arr xs)) =
     array_iterator (map fst (filter (\<lambda>(v, i). to_boolean (g v i)) (zip xs [0 ..< length xs])))"
  using where_loop_array [of "\<lambda>v i. Bool (p v i)" 0 xs] where_loop_array [of g 0 xs]
  by (simp add: BuildWhereRule_def)

theorem where_filters_by_input_position_witness:
  "BuildWhereRule (\<lambda>v i. Inr (Bool (greater_than_2 v i))) (Value (Arr [Num 1, Num 2, Num 3, Num 4]))
     = array_iterator [Num 3, Num 4]
   \<and> BuildWhereRule (\<lambda>v i. Inr (Bool (i = 0 \<or> i = 3))) (Value (Arr [Num 1, Num 2, Num 3, Num 4]))
     = array_iterator [Num 1, Num 4]"
  using where_filters_by_input_position
      [of greater_than_2 "[Num 1, Num 2, Num 3, Num 4]" "\<lambda>v i. v"]
    where_filters_by_input_position
      [of "\<lambda>v i. i = 0 \<or> i = 3" "[Num 1, Num 2, Num 3, Num 4]" "\<lambda>v i. v"]
  by (simp add: greater_than_2_def upt_rec)

text \<open>
  C9, as amended. For every input of elements other than \<^verbatim>\<open>null\<close> and \<^verbatim>\<open>undefined\<close>: with an
  array of field names none of which resolves, on a new object, to an inherited
  accessor (as \<^verbatim>\<open>__proto__\<close> does), \<^verbatim>\<open>select\<close> maps each element to a newly allocated record,
  an object that did not exist before while every object that did is left as it was,
  which has exactly the requested keys; the value of each key is what reading that
  property of the element gives, copied as it is, a reference remaining the same
  reference: the element's own property, otherwise the member it inherits through its
  prototype chain, and \<^verbatim>\<open>undefined\<close> only when there is neither. With a single field name,
  what reading that property gives is yielded itself, and no record is made: the store
  is unchanged.
\<close>

theorem select_copies_properties_into_new_records:
  assumes "closed_host H h" and "list_all (closed_value h) vs" and "list_all has_fields vs"
    and "list_all (plain_name H h) fs"
  shows "select_on_store H (Names fs) vs h =
           (Inr (map Ref [length h ..< length h + length vs]), h @ map (projection H h fs) vs)
       \<and> select_on_store H (Name f) vs h = (Inr (map (\<lambda>v. read_property H h v f) vs), h)"
  using select_each_record [OF assms(1) assms(4) assms(2) assms(3), of "[]" "[]"]
    select_each_value [OF assms(3), of H f "[]" h]
  by simp

theorem select_copies_properties_into_new_records_witness:
  "closed_host example_host example_store
   \<and> list_all (closed_value example_store) [Ref 2, Ref 3]
   \<and> list_all has_fields [Ref 2, Ref 3]
   \<and> list_all (plain_name example_host example_store) [''a'', ''b'', ''z'']
   \<and> fst (select_on_store example_host (Names [''a'', ''b'', ''z'']) [Ref 2, Ref 3] example_store)
       = Inr [Ref 4, Ref 5]
   \<and> take 4 (snd (select_on_store example_host (Names [''a'', ''b'', ''z'']) [Ref 2, Ref 3] example_store))
       = example_store
   \<and> length (snd (select_on_store example_host (Names [''a'', ''b'', ''z'']) [Ref 2, Ref 3] example_store))
       = 6
   \<and> map (slots (snd (select_on_store example_host (Names [''a'', ''b'', ''z'']) [Ref 2, Ref 3]
        example_store) ! 4)) [''a'', ''b'', ''z'', ''c'']
       = [Some (Data (RNum 1)), Some (Data (Ref 3)), Some (Data RUndefined), None]
   \<and> select_on_store example_host (Name ''b'') [Ref 2, Ref 3] example_store
       = (Inr [Ref 3, RUndefined], example_store)"
proof -
  have a: "closed_host example_host example_store"
    by (simp add: closed_host_def closed_chain_def example_host_def example_store_def)
  have b: "list_all (closed_value example_store) [Ref 2, Ref 3]"
    by (simp add: closed_chain_def example_store_def)
  have c: "list_all has_fields [Ref 2, Ref 3]"
    by (simp add: has_fields_def)
  have d: "list_all (plain_name example_host example_store) [''a'', ''b'', ''z'']"
    by (simp add: plain_name_def example_host_def example_store_def)
  have len: "length example_store = 4" by (simp add: example_store_def)
  note t = select_copies_properties_into_new_records [OF a b c d, of "''b''"]
  have r: "map (read_property example_host example_store (Ref 2)) [''a'', ''b'', ''z'']
      = [RNum 1, Ref 3, RUndefined]"
    "read_property example_host example_store (Ref 3) ''b'' = RUndefined"
    by (simp_all add: store_eval)
  from r have r': "read_property example_host example_store (Ref 2) ''a'' = RNum 1"
    "read_property example_host example_store (Ref 2) ''b'' = Ref 3"
    "read_property example_host example_store (Ref 2) ''z'' = RUndefined"
    by simp_all
  from t have s: "select_on_store example_host (Names [''a'', ''b'', ''z'']) [Ref 2, Ref 3] example_store =
      (Inr [Ref 4, Ref 5],
       example_store @ map (projection example_host example_store [''a'', ''b'', ''z'']) [Ref 2, Ref 3])"
    "select_on_store example_host (Name ''b'') [Ref 2, Ref 3] example_store =
      (Inr [Ref 3, RUndefined], example_store)"
    using r by (simp_all add: len upt_rec del: select_on_store.simps)
  from a b c d show ?thesis
    unfolding s by (simp add: len nth_append projection_def r')
qed

text \<open>
  The record \<^verbatim>\<open>{a: 1, b: o, c: 3}\<close> has no property \<^verbatim>\<open>__proto__\<close> or \<^verbatim>\<open>constructor\<close> of its own.
  Selecting \<^verbatim>\<open>["__proto__", "constructor"]\<close> from it gives a new record without the key
  \<^verbatim>\<open>__proto__\<close>, and with the inherited function, not \<^verbatim>\<open>undefined\<close>, under \<^verbatim>\<open>constructor\<close>;
  selecting \<^verbatim>\<open>"constructor"\<close> yields that function.
\<close>

theorem select_inherited_names_counterexample:
  "slots (example_store ! 2) ''__proto__'' = None
   \<and> slots (example_store ! 2) ''constructor'' = None
   \<and> fst (select_on_store example_host (Names [''__proto__'', ''constructor'']) [Ref 2] example_store)
       = Inr [Ref 4]
   \<and> slots (snd (select_on_store example_host (Names [''__proto__'', ''constructor'']) [Ref 2]
        example_store) ! 4) ''__proto__'' = None
   \<and> slots (snd (select_on_store example_host (Names [''__proto__'', ''constructor'']) [Ref 2]
        example_store) ! 4) ''constructor'' = Some (Data (Ref 1))
   \<and> select_on_store example_host (Name ''constructor'') [Ref 2] example_store
       = (Inr [Ref 1], example_store)"
  by (simp add: store_eval)


section \<open>Builders\<close>



text \<open>
  C5, as amended. For every \<^verbatim>\<open>Query\<close> whose list of rules is not empty, \<^verbatim>\<open>pack()\<close>
  replaces the list, in place, by a list of one element, the result of \<^verbatim>\<open>compile()\<close>;
  for a \<^verbatim>\<open>Query\<close> whose list is empty it leaves the list empty. In both cases it
  returns the same \<^verbatim>\<open>Query\<close>, and on every source the pipeline after the call is the
  pipeline before it.
\<close>

theorem pack_collapses_nonempty_list:
  "fst (Query_pack q h) = q
   \<and> this_rules q (snd (Query_pack q h)) = (if this_rules q h = [] then [] else [Query_compile q h])
   \<and> Query_compile q (snd (Query_pack q h)) = Query_compile q h
   \<and> Query_on q S (snd (Query_pack q h)) = Query_on q S h"
  by (simp add: Query_pack_def new_array_def this_rules_def Query_on_def Query_compile_def
      compile_rules_single)

theorem pack_collapses_nonempty_list_witness:
  "this_rules 0 (snd (Query_take 0 2 heap_take1)) = [BuildTakeRule 1, BuildTakeRule 2]
   \<and> length (this_rules 0 (snd (Query_pack 0 (snd (Query_take 0 2 heap_take1))))) = 1
   \<and> collect (Query_on 0 (Value (Arr [Num 1, Num 2, Num 3]))
        (snd (Query_pack 0 (snd (Query_take 0 2 heap_take1))))) = Inr [Num 1]"
proof -
  let ?h = "snd (Query_take 0 2 heap_take1)"
  have r: "this_rules 0 ?h = [BuildTakeRule 1, BuildTakeRule 2]"
    by (simp add: Query_take_def pushrule_def this_rules_def heap_take1_fields)
  then have "collect (Query_on 0 (Value (Arr [Num 1, Num 2, Num 3])) ?h) = Inr [Num 1]"
    by (simp add: Query_on_def Query_compile_def compile_rules_def collect_def
        Symbol_iterator_new BuildTakeRule_def)
  with r pack_collapses_nonempty_list [of 0 ?h "Value (Arr [Num 1, Num 2, Num 3])"]
  show ?thesis by simp
qed

text \<open>
  On the \<^verbatim>\<open>Query\<close> that \<^verbatim>\<open>query()\<close> returns, whose list is empty, \<^verbatim>\<open>pack()\<close> leaves the list
  empty: its length is 0 after the call, not 1.
\<close>

theorem pack_of_empty_query_counterexample:
  "fst (iq_query empty_heap) = 0
   \<and> length (this_rules 0 (snd (Query_pack 0 (snd (iq_query empty_heap))))) = 0"
  by (simp add: iq_query_def new_Query_def new_array_def empty_heap_def Query_pack_def
      this_rules_def)

section \<open>Executors\<close>

text \<open>
  C8. \<^verbatim>\<open>build()\<close> is \<^verbatim>\<open>on()\<close> called with no argument: it returns an executor of the
  compiled rules whose source is unset (\<^verbatim>\<open>null\<close>), and constructing it does not fail.
  For a \<^verbatim>\<open>Query\<close> whose rules were made by the rule factory, the failure for an unset
  source, or a source that is not iterable, is met by the first pull of a terminal
  operation, as the host's "not iterable" failure.
\<close>

theorem build_defers_not_iterable:
  assumes "this_rules q h = map BuildRule stages" and "get_iterator src = SThrow NotIterable"
  shows "Query_build q h = Query_on q (Value Undefined) h
       \<and> Query_build q h = \<lparr>query = Query_compile q h, iterable = Value Null\<rparr>
       \<and> Symbol_iterator (Query_build q h) = SThrow NotIterable
       \<and> collect (Query_build q h) = Inl NotIterable
       \<and> acollect fn (Query_build q h) s = (Inl NotIterable, s)
       \<and> Symbol_iterator (Query_on q src h) = SThrow NotIterable
       \<and> collect (Query_on q src h) = Inl NotIterable
       \<and> acollect fn (Query_on q src h) s = (Inl NotIterable, s)"
proof -
  have fail: "Query_compile q h x = SThrow NotIterable" if "get_iterator x = SThrow NotIterable" for x
    using sequential_SThrow [OF that, of stages] assms(1)
    by (simp add: Query_compile_def compile_rules_sequential)
  have a: "Query_build q h = \<lparr>query = Query_compile q h, iterable = Value Null\<rparr>"
    by (simp add: Query_build_def Query_on_def new_QueryExecutor_def)
  have b: "Symbol_iterator (Query_build q h) = SThrow NotIterable"
    using fail [of "Value Null"] by (simp add: Query_build_def Query_on_def Symbol_iterator_new)
  have c: "Symbol_iterator (Query_on q src h) = SThrow NotIterable"
    using fail [OF not_iterable_default [OF assms(2)]] by (simp add: Query_on_def Symbol_iterator_new)
  from a b c show ?thesis
    by (simp add: Query_build_def collect_def acollect_def)
qed

theorem build_defers_not_iterable_witness:
  "this_rules 0 heap_take1 = map BuildRule [Take 1]
   \<and> get_iterator (Value (Num 5)) = SThrow NotIterable
   \<and> iterable (Query_build 0 heap_take1) = Value Null
   \<and> collect (Query_build 0 heap_take1) = Inl NotIterable
   \<and> collect (Query_on 0 (Value (Num 5)) heap_take1) = Inl NotIterable"
proof -
  have r: "this_rules 0 heap_take1 = map BuildRule [Take 1]"
    by (simp add: this_rules_def heap_take1_fields)
  have g: "get_iterator (Value (Num 5)) = SThrow NotIterable" by simp
  note t = build_defers_not_iterable [OF r g, of None "()"]
  from t have "Query_build 0 heap_take1 = \<lparr>query = Query_compile 0 heap_take1, iterable = Value Null\<rparr>"
    by (rule conjunct1 [OF conjunct2])
  then have a: "iterable (Query_build 0 heap_take1) = Value Null" by simp
  from t have b: "collect (Query_build 0 heap_take1) = Inl NotIterable" by blast
  from t have c: "collect (Query_on 0 (Value (Num 5)) heap_take1) = Inl NotIterable" by blast
  from r g a b c show ?thesis by blast
qed

text \<open>
  C10. \<^verbatim>\<open>acollect(fn)\<close> pulls every value of the pipeline and calls \<^verbatim>\<open>fn\<close> on each, in
  order and with its index, before the aggregate over the results is made; so it does
  with the default \<^verbatim>\<open>fn\<close>. If a pull of the pipeline throws, or a call of \<^verbatim>\<open>fn\<close> throws, the
  failure is thrown out of the call of \<^verbatim>\<open>acollect\<close> itself: no aggregate is returned, and
  \<^verbatim>\<open>fn\<close> has been called on the values before the failure only, on nothing that comes
  after it.
\<close>

theorem acollect_throws_synchronously:
  "(map (\<lambda>(v, i). f v i) (zip vs [0 ..< length vs]) = map Inr ps
      \<and> Symbol_iterator ex = yields vs SDone
    \<longrightarrow> acollect (Some (logged f)) ex [] = (Inr (PromiseAll ps), zip vs [0 ..< length vs]))
   \<and> (map (\<lambda>(v, i). f v i) (zip vs [0 ..< length vs]) = map Inr ps
      \<and> Symbol_iterator ex = yields vs (SThrow e)
    \<longrightarrow> acollect (Some (logged f)) ex [] = (Inl e, zip vs [0 ..< length vs]))
   \<and> (map (\<lambda>(v, i). f v i) (zip vs [0 ..< length vs]) = map Inr ps
      \<and> Symbol_iterator ex = yields vs (SYield v rest) \<and> f v (length vs) = Inl e
    \<longrightarrow> acollect (Some (logged f)) ex [] = (Inl e, zip vs [0 ..< length vs] @ [(v, length vs)]))
   \<and> (Symbol_iterator ex = yields vs SDone
    \<longrightarrow> acollect None ex s = (Inr (PromiseAll (map Plain vs)), s))
   \<and> (Symbol_iterator ex = yields vs (SThrow e)
    \<longrightarrow> acollect None ex s = (Inl e, s))"
proof -
  have run: "acollect_loop (logged f) 0 [] (yields vs k) [] =
      acollect_loop (logged f) (length vs) ps k (zip vs [0 ..< length vs])"
    if "map (\<lambda>(v, i). f v i) (zip vs [0 ..< length vs]) = map Inr ps" for k
    using acollect_loop_logged [of f vs 0 ps "[]" k "[]"] that by simp
  have a: "acollect (Some (logged f)) ex [] = (Inr (PromiseAll ps), zip vs [0 ..< length vs])"
    if "map (\<lambda>(v, i). f v i) (zip vs [0 ..< length vs]) = map Inr ps"
      and "Symbol_iterator ex = yields vs SDone"
    using run [OF that(1), of SDone] that(2) by (simp add: acollect_def)
  have b: "acollect (Some (logged f)) ex [] = (Inl e, zip vs [0 ..< length vs])"
    if "map (\<lambda>(v, i). f v i) (zip vs [0 ..< length vs]) = map Inr ps"
      and "Symbol_iterator ex = yields vs (SThrow e)"
    using run [OF that(1), of "SThrow e"] that(2) by (simp add: acollect_def)
  have c: "acollect (Some (logged f)) ex [] = (Inl e, zip vs [0 ..< length vs] @ [(v, length vs)])"
    if "map (\<lambda>(v, i). f v i) (zip vs [0 ..< length vs]) = map Inr ps"
      and "Symbol_iterator ex = yields vs (SYield v rest)" and "f v (length vs) = Inl e"
    using run [OF that(1), of "SYield v rest"] that(2,3) by (simp add: acollect_def logged_def)
  have d: "acollect None ex s = (Inr (PromiseAll (map Plain vs)), s)"
    if "Symbol_iterator ex = yields vs SDone"
    using that by (simp add: acollect_def acollect_loop_identity [of 0 "[]", simplified])
  have e: "acollect None ex s = (Inl e, s)" if "Symbol_iterator ex = yields vs (SThrow e)"
    using that by (simp add: acollect_def acollect_loop_identity [of 0 "[]", simplified])
  from a b c d e show ?thesis by blast
qed

theorem acollect_throws_synchronously_witness:
  "acollect (Some (logged throws_from_2))
      \<lparr>query = BuildTakeRule 2, iterable = Value (Arr [Num 1, Num 2, Num 3])\<rparr> []
     = (Inr (PromiseAll [Plain (Num 1), Plain (Num 2)]), [(Num 1, 0), (Num 2, 1)])
   \<and> acollect (Some (logged pending_all))
      \<lparr>query = BuildTakeRule 2, iterable = Value (Arr [Num 1, Num 2, Num 3])\<rparr> []
     = (Inr (PromiseAll [Pending 0, Pending 1]), [(Num 1, 0), (Num 2, 1)])
   \<and> acollect (Some (logged pending_all))
      \<lparr>query = BuildFlatRule None, iterable = Value (Arr [Arr [Num 1, Num 2], Num 3])\<rparr> []
     = (Inl NotIterable, [(Num 1, 0), (Num 2, 1)])
   \<and> acollect (Some (logged throws_from_2))
      \<lparr>query = compile_rules [], iterable = Value (Arr [Num 1, Num 2, Num 3, Num 4])\<rparr> []
     = (Inl (Thrown ''fn''), [(Num 1, 0), (Num 2, 1), (Num 3, 2)])
   \<and> acollect None \<lparr>query = BuildTakeRule 2, iterable = Value (Arr [Num 1, Num 2, Num 3])\<rparr> ()
     = (Inr (PromiseAll [Plain (Num 1), Plain (Num 2)] :: unit aggregate), ())
   \<and> acollect None \<lparr>query = BuildFlatRule None, iterable = Value (Arr [Arr [Num 1, Num 2], Num 3])\<rparr> ()
     = (Inl NotIterable :: error + unit aggregate, ())"
proof -
  let ?vs = "[Num 1, Num 2]"
  let ?ex1 = "\<lparr>query = BuildTakeRule 2, iterable = Value (Arr [Num 1, Num 2, Num 3])\<rparr>"
  let ?ex2 = "\<lparr>query = BuildFlatRule None, iterable = Value (Arr [Arr [Num 1, Num 2], Num 3])\<rparr>"
  let ?ex3 = "\<lparr>query = compile_rules [], iterable = Value (Arr [Num 1, Num 2, Num 3, Num 4])\<rparr>"
  have f: "map (\<lambda>(v, i). throws_from_2 v i) (zip ?vs [0 ..< length ?vs]) =
      map Inr [Plain (Num 1), Plain (Num 2)]"
    by (simp add: throws_from_2_def upt_rec)
  have g: "map (\<lambda>(v, i). pending_all v i) (zip ?vs [0 ..< length ?vs]) =
      map Inr [Pending 0, Pending 1]"
    by (simp add: pending_all_def upt_rec)
  have a: "Symbol_iterator ?ex1 = yields ?vs SDone"
    by (simp add: Symbol_iterator_def yield_star_def BuildTakeRule_def)
  have b: "Symbol_iterator ?ex2 = yields ?vs (SThrow NotIterable)"
    by (simp add: Symbol_iterator_def yield_star_def BuildFlatRule_def)
  have c: "Symbol_iterator ?ex3 = yields ?vs (SYield (Num 3) (SYield (Num 4) SDone))"
    by (simp add: Symbol_iterator_def yield_star_def compile_rules_def)
  have t: "throws_from_2 (Num 3) (length ?vs) = Inl (Thrown ''fn'')"
    by (simp add: throws_from_2_def)
  have z: "zip ?vs [0 ..< length ?vs] = [(Num 1, 0), (Num 2, 1)]"
    by (simp add: upt_rec)
  note c1 = acollect_throws_synchronously [THEN conjunct1, rule_format, OF conjI]
  note c2 = acollect_throws_synchronously [THEN conjunct2, THEN conjunct1, rule_format, OF conjI]
  note c3 = acollect_throws_synchronously
    [THEN conjunct2, THEN conjunct2, THEN conjunct1, rule_format, OF conjI, OF _ conjI]
  note c4 = acollect_throws_synchronously
    [THEN conjunct2, THEN conjunct2, THEN conjunct2, THEN conjunct1, rule_format]
  note c5 = acollect_throws_synchronously
    [THEN conjunct2, THEN conjunct2, THEN conjunct2, THEN conjunct2, rule_format]
  have 1: "acollect (Some (logged throws_from_2)) ?ex1 [] =
      (Inr (PromiseAll [Plain (Num 1), Plain (Num 2)]), [(Num 1, 0), (Num 2, 1)])"
    by (rule c1 [OF f a, unfolded z])
  have 2: "acollect (Some (logged pending_all)) ?ex1 [] =
      (Inr (PromiseAll [Pending 0, Pending 1]), [(Num 1, 0), (Num 2, 1)])"
    by (rule c1 [OF g a, unfolded z])
  have 3: "acollect (Some (logged pending_all)) ?ex2 [] =
      (Inl NotIterable, [(Num 1, 0), (Num 2, 1)])"
    by (rule c2 [OF g b, unfolded z])
  have 4: "acollect (Some (logged throws_from_2)) ?ex3 [] =
      (Inl (Thrown ''fn''), [(Num 1, 0), (Num 2, 1)] @ [(Num 3, length ?vs)])"
    by (rule c3 [OF f c t, unfolded z])
  have 5: "acollect None ?ex1 () =
      (Inr (PromiseAll (map Plain ?vs) :: unit aggregate), ())"
    by (rule c4 [OF a])
  have 6: "acollect None ?ex2 () = (Inl NotIterable :: error + unit aggregate, ())"
    by (rule c5 [OF b])
  from 1 2 3 4 5 6 show ?thesis by simp
qed

end
